theory Spec2Isabelle
  imports Main "HOL-Library.Multiset" "HOL-Library.Stream"
begin

section \<open>Common conventions\<close>

text \<open>
  The Python exceptions that the modelled code can raise. A function that can raise
  returns \<open>error + 'a\<close>, with \<open>Inl\<close> carrying the exception.
\<close>

datatype error = ValueError | IndexError | KeyError | EOFError

text \<open>
  The random source is a stream of raw natural numbers, one consumed per call into the
  \<open>random\<close> module. \<open>random.choice(seq)\<close> raises IndexError on an empty
  sequence and otherwise returns \<open>seq[k]\<close> for some \<open>k < len(seq)\<close>; the raw
  number is reduced modulo the length, so every stream is a legal source and every
  position of the sequence can be chosen. \<open>random.randint(a, b)\<close> returns some
  integer between \<open>a\<close> and \<open>b\<close>, both included.
\<close>

type_synonym rng = "nat stream"

definition random_choice :: "rng \<Rightarrow> 'a list \<Rightarrow> error + ('a \<times> rng)" where
  "random_choice g xs =
     (if xs = [] then Inl IndexError
      else Inr (xs ! (shd g mod length xs), stl g))"

definition random_randint :: "rng \<Rightarrow> int \<Rightarrow> int \<Rightarrow> error + (int \<times> rng)" where
  "random_randint g a b =
     (if b < a then Inl ValueError
      else Inr (a + int (shd g mod nat (b - a + 1)), stl g))"

section \<open>RandomItemSelector\<close>

text \<open>
  \<open>src/cumulative/adv_game.py\<close>, class \<open>RandomItemSelector\<close> (the class of
  \<open>src/adventure/adv_game.py\<close> is the same text). The two attributes are Python lists.
\<close>

record 'a RandomItemSelector =
  items :: "'a list"
  used_items :: "'a list"

text \<open>
  \<open>__init__(self, items=None)\<close>: \<open>self.items = list(items) if items else []\<close>.
  The argument is \<open>None\<close> or a list; both \<open>None\<close> and the empty list are falsy.
\<close>

definition RandomItemSelector_init :: "'a list option \<Rightarrow> 'a RandomItemSelector" where
  "RandomItemSelector_init its =
     \<lparr>items = (case its of None \<Rightarrow> [] | Some xs \<Rightarrow> (if xs \<noteq> [] then xs else [])),
      used_items = []\<rparr>"

definition add_item :: "'a RandomItemSelector \<Rightarrow> 'a \<Rightarrow> 'a RandomItemSelector" where
  "add_item s item = s\<lparr>items := items s @ [item]\<rparr>"

definition reset :: "'a RandomItemSelector \<Rightarrow> 'a RandomItemSelector" where
  "reset s = s\<lparr>used_items := []\<rparr>"

text \<open>
  \<open>list.index(x)\<close>: the position of the first element equal to \<open>x\<close>,
  ValueError when there is none.
\<close>

fun list_index :: "'a list \<Rightarrow> 'a \<Rightarrow> error + nat" where
  "list_index [] x = Inl ValueError"
| "list_index (y # ys) x =
     (if y = x then Inr 0
      else (case list_index ys x of Inl e \<Rightarrow> Inl e | Inr i \<Rightarrow> Inr (Suc i)))"

text \<open>
  The set comprehension
  \<open>{self.items.index(x) for x in self.used_items if x in self.items}\<close>,
  evaluated left to right over \<open>used_items\<close>.
\<close>

fun used_positions :: "'a list \<Rightarrow> 'a list \<Rightarrow> error + nat set" where
  "used_positions its [] = Inr {}"
| "used_positions its (x # us) =
     (if x \<in> set its
      then (case list_index its x of
              Inl e \<Rightarrow> Inl e
            | Inr i \<Rightarrow> (case used_positions its us of
                         Inl e \<Rightarrow> Inl e
                       | Inr S \<Rightarrow> Inr (insert i S)))
      else used_positions its us)"

text \<open>
  \<open>pull_random_item\<close>. The result is the returned value (\<open>None\<close> for Python's
  \<open>None\<close>, \<open>Some x\<close> for a pool entry), the selector after the call and the rest of
  the random source. The empty-pool branch rebinds \<open>used_items\<close> and draws nothing.
\<close>

definition pull_random_item ::
  "'a RandomItemSelector \<Rightarrow> rng \<Rightarrow> error + ('a option \<times> 'a RandomItemSelector \<times> rng)" where
  "pull_random_item s g =
     (if items s = [] then Inr (None, s\<lparr>used_items := []\<rparr>, g)
      else
        (case used_positions (items s) (used_items s) of
           Inl e \<Rightarrow> Inl e
         | Inr used \<Rightarrow>
             let available_indices = filter (\<lambda>i. i \<notin> used) [0..<length (items s)];
                 s1 = (if available_indices = [] then reset s else s);
                 available_indices1 =
                   (if available_indices = [] then [0..<length (items s1)]
                    else available_indices)
             in (case random_choice g available_indices1 of
                   Inl e \<Rightarrow> Inl e
                 | Inr (choice_idx, g') \<Rightarrow>
                     if choice_idx < length (items s1)
                     then let choice = items s1 ! choice_idx
                          in Inr (Some choice, s1\<lparr>used_items := used_items s1 @ [choice]\<rparr>, g')
                     else Inl IndexError)))"

text \<open>\<open>n\<close> consecutive calls of \<open>pull_random_item\<close>, collecting the returned values.\<close>

fun pull_n ::
  "nat \<Rightarrow> 'a RandomItemSelector \<Rightarrow> rng \<Rightarrow> error + ('a option list \<times> 'a RandomItemSelector \<times> rng)" where
  "pull_n 0 s g = Inr ([], s, g)"
| "pull_n (Suc n) s g =
     (case pull_random_item s g of
        Inl e \<Rightarrow> Inl e
      | Inr (x, s', g') \<Rightarrow>
          (case pull_n n s' g' of
             Inl e \<Rightarrow> Inl e
           | Inr (xs, s'', g'') \<Rightarrow> Inr (x # xs, s'', g'')))"

text \<open>
  Any sequence of the three public operations on a selector. A raised exception ends the
  sequence.
\<close>

datatype 'a selector_op = AddItem 'a | PullRandomItem | Reset

fun run_ops ::
  "'a selector_op list \<Rightarrow> 'a RandomItemSelector \<Rightarrow> rng \<Rightarrow> error + ('a RandomItemSelector \<times> rng)" where
  "run_ops [] s g = Inr (s, g)"
| "run_ops (AddItem x # ops) s g = run_ops ops (add_item s x) g"
| "run_ops (Reset # ops) s g = run_ops ops (reset s) g"
| "run_ops (PullRandomItem # ops) s g =
     (case pull_random_item s g of
        Inl e \<Rightarrow> Inl e
      | Inr (x, s', g') \<Rightarrow> run_ops ops s' g')"

text \<open>
  The state invariant of a pool of pairwise different values, and the sequences of
  operations that keep the pool so: every \<open>add_item\<close> adds a value the pool does not
  hold yet.
\<close>

definition selector_inv :: "'a RandomItemSelector \<Rightarrow> bool" where
  "selector_inv s =
     (distinct (items s) \<and> distinct (used_items s) \<and> set (used_items s) \<subseteq> set (items s))"

fun fresh_adds :: "'a selector_op list \<Rightarrow> 'a list \<Rightarrow> bool" where
  "fresh_adds [] its = True"
| "fresh_adds (AddItem x # ops) its = (x \<notin> set its \<and> fresh_adds ops (its @ [x]))"
| "fresh_adds (PullRandomItem # ops) its = fresh_adds ops its"
| "fresh_adds (Reset # ops) its = fresh_adds ops its"

section \<open>Strings and console input\<close>

text \<open>
  A string is a list of 8-bit characters, read as the code points U+0000 to U+00FF; a
  string holding a code point above U+00FF is outside this type. \<open>str.strip()\<close>
  removes from both ends the characters for which \<open>str.isspace\<close> holds: below U+0100
  these are tab, line feed, vertical tab, form feed, carriage return, the four
  separators 0x1C to 0x1F, space, next line (0x85) and no-break space (0xA0).
  \<open>str.lower()\<close> maps \<open>A\<close> to \<open>Z\<close> onto \<open>a\<close> to \<open>z\<close> and the capitals 0xC0 to
  0xDE, the multiplication sign 0xD7 apart, onto 0xE0 to 0xFE, and keeps every other
  character of the range. \<open>s.startswith(p)\<close> compares the first \<open>len(p)\<close>
  characters.
\<close>

definition isspace :: "char \<Rightarrow> bool" where
  "isspace c = (c \<in> set [CHR 0x09, CHR 0x0A, CHR 0x0B, CHR 0x0C, CHR 0x0D,
                          CHR 0x1C, CHR 0x1D, CHR 0x1E, CHR 0x1F, CHR 0x20,
                          CHR 0x85, CHR 0xA0])"

definition str_strip :: "string \<Rightarrow> string" where
  "str_strip s = rev (dropWhile isspace (rev (dropWhile isspace s)))"

definition upper_chars :: string where
  "upper_chars = ''ABCDEFGHIJKLMNOPQRSTUVWXYZ'' @
     [CHR 0xC0, CHR 0xC1, CHR 0xC2, CHR 0xC3, CHR 0xC4, CHR 0xC5,
      CHR 0xC6, CHR 0xC7, CHR 0xC8, CHR 0xC9, CHR 0xCA, CHR 0xCB,
      CHR 0xCC, CHR 0xCD, CHR 0xCE, CHR 0xCF, CHR 0xD0, CHR 0xD1,
      CHR 0xD2, CHR 0xD3, CHR 0xD4, CHR 0xD5, CHR 0xD6, CHR 0xD8,
      CHR 0xD9, CHR 0xDA, CHR 0xDB, CHR 0xDC, CHR 0xDD, CHR 0xDE]"

definition lower_chars :: string where
  "lower_chars = ''abcdefghijklmnopqrstuvwxyz'' @
     [CHR 0xE0, CHR 0xE1, CHR 0xE2, CHR 0xE3, CHR 0xE4, CHR 0xE5,
      CHR 0xE6, CHR 0xE7, CHR 0xE8, CHR 0xE9, CHR 0xEA, CHR 0xEB,
      CHR 0xEC, CHR 0xED, CHR 0xEE, CHR 0xEF, CHR 0xF0, CHR 0xF1,
      CHR 0xF2, CHR 0xF3, CHR 0xF4, CHR 0xF5, CHR 0xF6, CHR 0xF8,
      CHR 0xF9, CHR 0xFA, CHR 0xFB, CHR 0xFC, CHR 0xFD, CHR 0xFE]"

definition lower_char :: "char \<Rightarrow> char" where
  "lower_char c =
     (case map_of (zip upper_chars lower_chars) c of
        Some d \<Rightarrow> d
      | None \<Rightarrow> c)"

definition str_lower :: "string \<Rightarrow> string" where
  "str_lower s = map lower_char s"

definition str_startswith :: "string \<Rightarrow> string \<Rightarrow> bool" where
  "str_startswith s p = (take (length p) s = p)"

text \<open>
  Python's builtin \<open>int\<close> on a string is a parameter of the functions that call it:
  \<open>Some n\<close> is the integer read, \<open>None\<close> stands for ValueError. The parser below
  reads a single decimal digit and is used for concrete runs only.
\<close>

type_synonym py_int = "string \<Rightarrow> int option"

definition digit_int :: py_int where
  "digit_int s = map_of [(''0'', 0), (''1'', 1), (''2'', 2), (''3'', 3), (''4'', 4),
                         (''5'', 5), (''6'', 6), (''7'', 7), (''8'', 8), (''9'', 9)] s"

section \<open>Rock Paper Scissors Lizard Spock\<close>

text \<open>
  \<open>src/rpsls/rpsls.py\<close>. The dictionary \<open>RULES\<close> is an association list in the order
  of the literal; its keys are pairwise different, so lookup by \<open>map_of\<close> is the
  dictionary's lookup.
\<close>

definition RULES :: "((string \<times> string) \<times> string) list" where
  "RULES =
     [((''scissors'', ''lizard''), ''Scissors decapitate lizard''),
      ((''scissors'', ''paper''), ''Scissors cuts paper''),
      ((''paper'', ''rock''), ''Paper covers rock''),
      ((''rock'', ''lizard''), ''Rock crushes lizard''),
      ((''lizard'', ''spock''), ''Lizard poisons Spock''),
      ((''spock'', ''scissors''), ''Spock smashes scissors''),
      ((''lizard'', ''paper''), ''Lizard eats paper''),
      ((''paper'', ''spock''), ''Paper disproves Spock''),
      ((''spock'', ''rock''), ''Spock vaporizes rock''),
      ((''rock'', ''scissors''), ''Rock crushes scissors'')]"

definition CHOICES :: "string list" where
  "CHOICES = [''rock'', ''paper'', ''scissors'', ''lizard'', ''spock'']"

definition determine_winner :: "string \<Rightarrow> string \<Rightarrow> string \<times> string" where
  "determine_winner user computer =
     (if user = computer then (''tie'', ''It's a tie!'')
      else (case map_of RULES (user, computer) of
              Some reason \<Rightarrow> (''win'', reason)
            | None \<Rightarrow>
                (case map_of RULES (computer, user) of
                   Some reason \<Rightarrow> (''lose'', reason)
                 | None \<Rightarrow> (''error'', ''Unexpected result.''))))"

section \<open>The castle game\<close>

text \<open>
  \<open>src/cumulative/adv_game.py\<close>. \<open>print\<close> only writes to the console and is left out.
  \<open>input(prompt)\<close> takes the next line of standard input and raises EOFError when
  there is none. The state outside the objects is the remaining standard input, the
  random source and the process-wide \<open>SenseClueGenerator\<close> singleton.
\<close>

datatype encounter_outcome = CONTINUE | END

definition clues :: "string list" where
  "clues =
     [''There is a smudge of dried ink on the underside of the table.'',
      ''There is a faint scorch on the carpet as if something hot had been placed there.'',
      ''There is a single muddy footprint pressed into the rug's fringe.'',
      ''There is a scrap of paper folded three times and tucked into the baseboard.'',
      ''There is a whisper of perfume that doesn't match any occupant's clothing.'',
      ''There is a hidden latch behind the bookshelf, its edges recently worn.'',
      ''There is a streak of crimson along the windowsill that has dried a while.'',
      ''There is a child's toy, intact but abandoned, under the radiator.'',
      ''There is a calendar with one day circled and the ink smudged by a trembling hand.'',
      ''There is a loose floorboard with a small hollow stamped into dust beneath it.'']"

definition sense_exp :: "string list" where
  "sense_exp =
     [''You see torchlight pooling along the flagstones, though no torch burns nearby.'',
      ''You hear the slow turning of gears somewhere deep in the wall, patient and eternal.'',
      ''You smell cold iron mixed with old beeswax and something floral that has lingered for years.'',
      ''You feel the carved stone hum faintly beneath your fingertips, as if remembering a name.'',
      ''You sense the room holding its breath, a quiet pressure that makes your heartbeat louder.'',
      ''You see motes of dust dancing in a shaft of moonlight that slices through a narrow slit.'',
      ''You hear a draped curtain stir though the air is still, like the echo of a passing cloak.'',
      ''You smell smoke and melted wax threaded through the tapestry's weave.'',
      ''You feel a chill run along the baseboard as if footsteps passed by moments ago.'',
      ''You see a shadow pause in the corner, not quite matching the shape of anything known.'',
      ''You hear a faint, off-key melody humming from behind a sealed door.'',
      ''You sense something familiar and foreign at once, a memory that belongs to someone else.'']"

record SenseClueGenerator =
  clue_selector :: "string RandomItemSelector"
  sense_selector :: "string RandomItemSelector"

text \<open>\<open>SenseClueGenerator.__new__\<close> on its first call, which creates the singleton.\<close>

definition SenseClueGenerator_new :: SenseClueGenerator where
  "SenseClueGenerator_new =
     \<lparr>clue_selector = RandomItemSelector_init (Some clues),
      sense_selector = RandomItemSelector_init (Some sense_exp)\<rparr>"

text \<open>
  \<open>get_senseclue\<close>: both selectors are pulled, then
  \<open>if clue and sense: return f"{sense} {clue}"\<close> and otherwise
  \<open>return clue or sense or ""\<close>, where \<open>None\<close> and the empty string are falsy.
\<close>

definition get_senseclue ::
  "SenseClueGenerator \<Rightarrow> rng \<Rightarrow> error + (string \<times> SenseClueGenerator \<times> rng)" where
  "get_senseclue scg g =
     (case pull_random_item (clue_selector scg) g of
        Inl e \<Rightarrow> Inl e
      | Inr (clue, cs, g1) \<Rightarrow>
          (case pull_random_item (sense_selector scg) g1 of
             Inl e \<Rightarrow> Inl e
           | Inr (sense, ss, g2) \<Rightarrow>
               let scg' = scg\<lparr>clue_selector := cs, sense_selector := ss\<rparr>
               in (case (clue, sense) of
                     (Some c, Some s) \<Rightarrow>
                       if c \<noteq> [] \<and> s \<noteq> [] then Inr (s @ '' '' @ c, scg', g2)
                       else if c \<noteq> [] then Inr (c, scg', g2)
                       else Inr (s, scg', g2)
                   | (Some c, None) \<Rightarrow> Inr (c, scg', g2)
                   | (None, Some s) \<Rightarrow> Inr (s, scg', g2)
                   | (None, None) \<Rightarrow> Inr ('''', scg', g2))))"

text \<open>
  The encounters. Every \<open>DefaultEncounter\<close> holds the singleton generator, so the class
  has no state of its own. Python compares \<open>Room\<close> objects by identity (the class
  defines no \<open>__eq__\<close>); \<open>room_id\<close> stands for that identity, different for
  different objects.
\<close>

datatype Encounter = DefaultEncounter | TreasureEncounter | RedWizard

record Room =
  room_id :: nat
  name :: string
  encounter :: Encounter

record world =
  stdin :: "string list"
  rand :: rng
  scg :: SenseClueGenerator

definition DefaultEncounter_run_encounter :: "world \<Rightarrow> error + (encounter_outcome \<times> world)" where
  "DefaultEncounter_run_encounter w =
     (case get_senseclue (scg w) (rand w) of
        Inl e \<Rightarrow> Inl e
      | Inr (out, scg', g') \<Rightarrow> Inr (CONTINUE, w\<lparr>rand := g', scg := scg'\<rparr>))"

definition TreasureEncounter_run_encounter :: "world \<Rightarrow> error + (encounter_outcome \<times> world)" where
  "TreasureEncounter_run_encounter w = Inr (END, w)"

definition game_rules :: "(string \<times> string list) list" where
  "game_rules =
     [(''Fireball'', [''Ice Shard'', ''Lightning Bolt'']),
      (''Ice Shard'', [''Wind Gust'', ''Earthquake'']),
      (''Wind Gust'', [''Lightning Bolt'', ''Fireball'']),
      (''Lightning Bolt'', [''Earthquake'', ''Ice Shard'']),
      (''Earthquake'', [''Fireball'', ''Wind Gust''])]"

text \<open>\<open>choices = list(game_rules.keys())\<close>, in insertion order.\<close>

definition choices :: "string list" where
  "choices = map fst game_rules"

text \<open>
  \<open>wizard in self.game_rules[player]\<close> as a predicate on two spells (false for a
  spell that is not a key of the table).
\<close>

definition beats :: "string \<Rightarrow> string \<Rightarrow> bool" where
  "beats p q = (case map_of game_rules p of None \<Rightarrow> False | Some beaten \<Rightarrow> q \<in> set beaten)"

text \<open>
  \<open>RedWizard.run_encounter\<close>: the \<open>while True\<close> loop, one line of input per round.
  A line that \<open>int\<close> rejects or that is out of range, and a clash of equal spells, start
  the next round; the wizard's spell is drawn only after a valid choice.
\<close>

fun RedWizard_loop ::
  "py_int \<Rightarrow> string list \<Rightarrow> rng \<Rightarrow> error + (encounter_outcome \<times> string list \<times> rng)" where
  "RedWizard_loop to_int [] g = Inl EOFError"
| "RedWizard_loop to_int (line # rest) g =
     (case to_int (str_strip line) of
        None \<Rightarrow> RedWizard_loop to_int rest g
      | Some n \<Rightarrow>
          let idx = n - 1
          in if idx < 0 \<or> idx \<ge> int (length choices) then RedWizard_loop to_int rest g
             else
               let player = choices ! nat idx
               in (case random_choice g choices of
                     Inl e \<Rightarrow> Inl e
                   | Inr (wizard, g') \<Rightarrow>
                       if player = wizard then RedWizard_loop to_int rest g'
                       else (case map_of game_rules player of
                               None \<Rightarrow> Inl KeyError
                             | Some beaten \<Rightarrow>
                                 if wizard \<in> set beaten then Inr (CONTINUE, rest, g')
                                 else Inr (END, rest, g'))))"

definition RedWizard_run_encounter ::
  "py_int \<Rightarrow> world \<Rightarrow> error + (encounter_outcome \<times> world)" where
  "RedWizard_run_encounter to_int w =
     (case RedWizard_loop to_int (stdin w) (rand w) of
        Inl e \<Rightarrow> Inl e
      | Inr (outcome, rest, g') \<Rightarrow> Inr (outcome, w\<lparr>stdin := rest, rand := g'\<rparr>))"

text \<open>Dynamic dispatch of \<open>run_encounter\<close>, and \<open>Room.visit_room\<close>.\<close>

definition run_encounter ::
  "py_int \<Rightarrow> Encounter \<Rightarrow> world \<Rightarrow> error + (encounter_outcome \<times> world)" where
  "run_encounter to_int e w =
     (case e of
        DefaultEncounter \<Rightarrow> DefaultEncounter_run_encounter w
      | TreasureEncounter \<Rightarrow> TreasureEncounter_run_encounter w
      | RedWizard \<Rightarrow> RedWizard_run_encounter to_int w)"

definition visit_room :: "py_int \<Rightarrow> Room \<Rightarrow> world \<Rightarrow> error + (encounter_outcome \<times> world)" where
  "visit_room to_int room w = run_encounter to_int (encounter room) w"

definition castle_rooms :: "Room list" where
  "castle_rooms =
     [\<lparr>room_id = 0, name = ''Great Hall'', encounter = DefaultEncounter\<rparr>,
      \<lparr>room_id = 1, name = ''Armory'', encounter = DefaultEncounter\<rparr>,
      \<lparr>room_id = 2, name = ''North Tower'', encounter = DefaultEncounter\<rparr>,
      \<lparr>room_id = 3, name = ''Library'', encounter = DefaultEncounter\<rparr>,
      \<lparr>room_id = 4, name = ''Courtyard'', encounter = DefaultEncounter\<rparr>,
      \<lparr>room_id = 5, name = ''Throne Room'', encounter = DefaultEncounter\<rparr>,
      \<lparr>room_id = 6, name = ''Treasure Room'', encounter = TreasureEncounter\<rparr>,
      \<lparr>room_id = 7, name = ''The Red Wizard's Lair'', encounter = RedWizard\<rparr>]"

record Castle =
  room_selector :: "Room RandomItemSelector"

definition Castle_init :: "Room list option \<Rightarrow> Castle" where
  "Castle_init rooms =
     \<lparr>room_selector =
        RandomItemSelector_init (Some (case rooms of None \<Rightarrow> castle_rooms | Some rs \<Rightarrow> rs))\<rparr>"

text \<open>
  \<open>Castle.select_door\<close>: the number of doors is drawn once, then lines are read until
  one is an integer between 1 and that number.
\<close>

fun select_door_loop :: "py_int \<Rightarrow> int \<Rightarrow> string list \<Rightarrow> error + (int \<times> string list)" where
  "select_door_loop to_int num_doors [] = Inl EOFError"
| "select_door_loop to_int num_doors (line # rest) =
     (case to_int (str_strip line) of
        None \<Rightarrow> select_door_loop to_int num_doors rest
      | Some val \<Rightarrow>
          if 1 \<le> val \<and> val \<le> num_doors then Inr (val, rest)
          else select_door_loop to_int num_doors rest)"

definition select_door :: "py_int \<Rightarrow> world \<Rightarrow> error + (int \<times> world)" where
  "select_door to_int w =
     (case random_randint (rand w) 2 4 of
        Inl e \<Rightarrow> Inl e
      | Inr (num_doors, g') \<Rightarrow>
          (case select_door_loop to_int num_doors (stdin w) of
             Inl e \<Rightarrow> Inl e
           | Inr (val, rest) \<Rightarrow> Inr (val, w\<lparr>stdin := rest, rand := g'\<rparr>)))"

definition next_room ::
  "py_int \<Rightarrow> Castle \<Rightarrow> world \<Rightarrow> error + (encounter_outcome \<times> Castle \<times> world)" where
  "next_room to_int c w =
     (case select_door to_int w of
        Inl e \<Rightarrow> Inl e
      | Inr (door, w1) \<Rightarrow>
          (case pull_random_item (room_selector c) (rand w1) of
             Inl e \<Rightarrow> Inl e
           | Inr (room, sel, g') \<Rightarrow>
               let c' = c\<lparr>room_selector := sel\<rparr>; w2 = w1\<lparr>rand := g'\<rparr>
               in (case room of
                     None \<Rightarrow> Inr (END, c', w2)
                   | Some r \<Rightarrow>
                       (case visit_room to_int r w2 of
                          Inl e \<Rightarrow> Inl e
                        | Inr (outcome, w3) \<Rightarrow> Inr (outcome, c', w3)))))"

definition Castle_reset :: "Castle \<Rightarrow> Castle" where
  "Castle_reset c = c\<lparr>room_selector := reset (room_selector c)\<rparr>"

record Game =
  castle :: Castle

definition Game_init :: "Room list option \<Rightarrow> Game" where
  "Game_init rooms = \<lparr>castle = Castle_init rooms\<rparr>"

text \<open>
  \<open>Game.play_game\<close>: the \<open>while True\<close> loop. Every round reads at least one line
  (the door prompt), so the loop ends on any finite input, with EOFError at the latest.
  The result is the game and the world at the \<open>break\<close>.
\<close>

lemma select_door_loop_consumes:
  "select_door_loop to_int n ls = Inr (v, rest) \<Longrightarrow> length rest < length ls"
  by (induction ls) (auto split: option.splits if_splits)

lemma RedWizard_loop_consumes:
  "RedWizard_loop to_int ls g = Inr (outcome, rest, g') \<Longrightarrow> length rest < length ls"
proof (induction ls arbitrary: g)
  case Nil
  then show ?case by simp
next
  case (Cons line ls)
  from Cons.prems show ?case
    by (auto simp: Let_def split: option.splits if_splits sum.splits prod.splits
        dest!: Cons.IH)
qed

lemma run_encounter_consumes:
  "run_encounter to_int e w = Inr (outcome, w') \<Longrightarrow> length (stdin w') \<le> length (stdin w)"
  by (cases e)
    (auto simp: run_encounter_def DefaultEncounter_run_encounter_def
      TreasureEncounter_run_encounter_def RedWizard_run_encounter_def
      split: sum.splits prod.splits dest: RedWizard_loop_consumes)

lemma select_door_consumes:
  "select_door to_int w = Inr (v, w') \<Longrightarrow> length (stdin w') < length (stdin w)"
  by (auto simp: select_door_def split: sum.splits prod.splits
      dest: select_door_loop_consumes)

lemma next_room_consumes:
  assumes "next_room to_int c w = Inr (outcome, c', w')"
  shows "length (stdin w') < length (stdin w)"
proof -
  from assms obtain door w1 where w1: "select_door to_int w = Inr (door, w1)"
    by (auto simp: next_room_def split: sum.splits)
  then have lt: "length (stdin w1) < length (stdin w)"
    by (rule select_door_consumes)
  from assms w1 obtain room sel g' where
    p: "pull_random_item (room_selector c) (rand w1) = Inr (room, sel, g')"
    by (auto simp: next_room_def split: sum.splits)
  show ?thesis
  proof (cases room)
    case None
    with assms w1 p have "w' = w1\<lparr>rand := g'\<rparr>"
      by (simp add: next_room_def Let_def)
    with lt show ?thesis by simp
  next
    case (Some r)
    with assms w1 p have "visit_room to_int r (w1\<lparr>rand := g'\<rparr>) = Inr (outcome, w')"
      by (auto simp: next_room_def Let_def split: sum.splits)
    then have "length (stdin w') \<le> length (stdin (w1\<lparr>rand := g'\<rparr>))"
      unfolding visit_room_def by (rule run_encounter_consumes)
    with lt show ?thesis by simp
  qed
qed

function play_game :: "py_int \<Rightarrow> Game \<Rightarrow> world \<Rightarrow> error + (Game \<times> world)" where
  "play_game to_int game w =
     (case next_room to_int (castle game) w of
        Inl e \<Rightarrow> Inl e
      | Inr (outcome, c', w') \<Rightarrow>
          let game1 = game\<lparr>castle := c'\<rparr>
          in if outcome = END
             then
               let game2 = game1\<lparr>castle := Castle_reset (castle game1)\<rparr>
               in (case stdin w' of
                     [] \<Rightarrow> Inl EOFError
                   | line # rest \<Rightarrow>
                       let again = str_lower (str_strip line); w'' = w'\<lparr>stdin := rest\<rparr>
                       in if str_startswith again ''y'' then play_game to_int game2 w''
                          else Inr (game2, w''))
             else play_game to_int game1 w')"
  by pat_completeness auto

termination
proof (relation "measure (\<lambda>(to_int, game, w). length (stdin w))")
  show "wf (measure (\<lambda>(to_int, game, w). length (stdin w)))" by simp
next
  fix to_int game w x2 outcome y c' w' game1 game2 line rest again w''
  assume "next_room to_int (castle game) w = Inr x2" "(outcome, y) = x2" "(c', w') = y"
    and "stdin w' = line # rest" and "w'' = w'\<lparr>stdin := rest\<rparr>"
  then have "length (stdin w') < length (stdin w)"
    using next_room_consumes [of to_int "castle game" w outcome c' w'] by simp
  with \<open>stdin w' = line # rest\<close> \<open>w'' = w'\<lparr>stdin := rest\<rparr>\<close>
  show "((to_int, game2, w''), to_int, game, w)
          \<in> measure (\<lambda>(to_int, game, w). length (stdin w))"
    by simp
next
  fix to_int game w x2 outcome y c' w' game1
  assume "next_room to_int (castle game) w = Inr x2" "(outcome, y) = x2" "(c', w') = y"
  then have "length (stdin w') < length (stdin w)"
    using next_room_consumes [of to_int "castle game" w outcome c' w'] by simp
  then show "((to_int, game1, w'), to_int, game, w)
          \<in> measure (\<lambda>(to_int, game, w). length (stdin w))"
    by simp
qed

declare play_game.simps [simp del]

section \<open>Properties of RandomItemSelector\<close>

lemma list_index_mem:
  "x \<in> set xs \<Longrightarrow> \<exists>i. list_index xs x = Inr i \<and> i < length xs \<and> xs ! i = x"
  by (induction xs) auto

lemma list_index_distinct:
  "distinct xs \<Longrightarrow> i < length xs \<Longrightarrow> list_index xs (xs ! i) = Inr i"
proof (induction xs arbitrary: i)
  case Nil
  then show ?case by simp
next
  case (Cons y ys)
  show ?case
  proof (cases i)
    case 0
    then show ?thesis by simp
  next
    case (Suc j)
    with Cons.prems have "j < length ys" "ys ! j \<noteq> y" "distinct ys" by auto
    with Cons.IH [of j] Suc show ?thesis by auto
  qed
qed

lemma used_positions_total:
  "\<exists>S. used_positions its us = Inr S \<and> (\<forall>i\<in>S. i < length its \<and> its ! i \<in> set us)"
proof (induction us)
  case Nil
  then show ?case by simp
next
  case (Cons x us)
  then obtain S where S: "used_positions its us = Inr S"
    "\<forall>i\<in>S. i < length its \<and> its ! i \<in> set us" by blast
  show ?case
  proof (cases "x \<in> set its")
    case True
    then obtain i where "list_index its x = Inr i" "i < length its" "its ! i = x"
      using list_index_mem by fastforce
    with S True show ?thesis by auto
  next
    case False
    with S show ?thesis by auto
  qed
qed

lemma used_positions_distinct:
  "distinct its \<Longrightarrow>
   used_positions its us = Inr {i. i < length its \<and> its ! i \<in> set us}"
proof (induction us)
  case Nil
  then show ?case by simp
next
  case (Cons x us)
  show ?case
  proof (cases "x \<in> set its")
    case True
    then obtain i where i: "i < length its" "its ! i = x"
      by (auto simp: in_set_conv_nth)
    with Cons.prems have li: "list_index its x = Inr i"
      using list_index_distinct by fastforce
    have "insert i {j. j < length its \<and> its ! j \<in> set us}
        = {j. j < length its \<and> its ! j \<in> set (x # us)}"
      using i Cons.prems by (auto simp: nth_eq_iff_index_eq)
    with True li Cons show ?thesis by simp
  next
    case False
    have "{j. j < length its \<and> its ! j \<in> set us}
        = {j. j < length its \<and> its ! j \<in> set (x # us)}"
      using False by auto
    with False Cons show ?thesis by simp
  qed
qed

lemma random_choice_mem:
  "xs \<noteq> [] \<Longrightarrow> \<exists>k. random_choice g xs = Inr (k, stl g) \<and> k \<in> set xs"
  by (simp add: random_choice_def)

text \<open>
  Claim C9. On a selector whose pool is not empty, whatever \<open>used_items\<close> holds and
  whatever the random source gives, \<open>pull_random_item\<close> raises nothing, does not return
  \<open>None\<close>, and returns an element of \<open>items\<close>: the list handed to
  \<open>random.choice\<close> is never empty. The set of used positions is computed without an
  exception. When no position is left available, \<open>used_items\<close> is cleared in this same
  call, the draw is among all positions of the pool, and the value drawn is the only
  entry of \<open>used_items\<close> afterwards. Otherwise the draw is among the available
  positions, none of them a used one, and the value drawn is appended to \<open>used_items\<close>.
  In both cases \<open>items\<close> is unchanged and one random number is consumed.
\<close>

theorem pull_nonempty:
  assumes "items s \<noteq> []"
  shows "\<exists>used. used_positions (items s) (used_items s) = Inr used \<and>
           (let available_indices = filter (\<lambda>i. i \<notin> used) [0..<length (items s)]
            in if available_indices = []
               then (let x = items s ! (shd g mod length (items s))
                     in pull_random_item s g = Inr (Some x, s\<lparr>used_items := [x]\<rparr>, stl g)
                        \<and> x \<in> set (items s))
               else (let k = available_indices ! (shd g mod length available_indices);
                         x = items s ! k
                     in pull_random_item s g
                          = Inr (Some x, s\<lparr>used_items := used_items s @ [x]\<rparr>, stl g)
                        \<and> k < length (items s) \<and> k \<notin> used \<and> x \<in> set (items s)))
           \<and> (\<exists>x s' g'. pull_random_item s g = Inr (Some x, s', g') \<and> x \<in> set (items s))"
proof -
  obtain S where S: "used_positions (items s) (used_items s) = Inr S"
    using used_positions_total by blast
  define av where "av = filter (\<lambda>i. i \<notin> S) [0..<length (items s)]"
  have n: "0 < length (items s)" using assms by simp
  show ?thesis
  proof (cases "av = []")
    case True
    let ?x = "items s ! (shd g mod length (items s))"
    have rc: "random_choice g [0..<length (items s)]
        = Inr (shd g mod length (items s), stl g)"
      using n by (simp add: random_choice_def)
    have lt: "shd g mod length (items s) < length (items s)" using n by simp
    have p: "pull_random_item s g = Inr (Some ?x, s\<lparr>used_items := [?x]\<rparr>, stl g)"
      using assms S True rc lt
      by (simp add: pull_random_item_def Let_def reset_def av_def)
    have m: "?x \<in> set (items s)" using lt by simp
    from p m have "\<exists>x s' g'. pull_random_item s g = Inr (Some x, s', g') \<and> x \<in> set (items s)"
      by blast
    with S True p m show ?thesis
      unfolding av_def by (intro exI [of _ S]) (simp add: Let_def)
  next
    case False
    let ?k = "av ! (shd g mod length av)"
    let ?x = "items s ! ?k"
    have rc: "random_choice g av = Inr (?k, stl g)"
      using False by (simp add: random_choice_def)
    have "?k \<in> set av" using False by simp
    then have k: "?k < length (items s)" "?k \<notin> S" by (simp_all add: av_def)
    have p: "pull_random_item s g
        = Inr (Some ?x, s\<lparr>used_items := used_items s @ [?x]\<rparr>, stl g)"
      using assms S False rc k(1)
      by (simp add: pull_random_item_def Let_def av_def)
    have m: "?x \<in> set (items s)" using k(1) by simp
    from p m have "\<exists>x s' g'. pull_random_item s g = Inr (Some x, s', g') \<and> x \<in> set (items s)"
      by blast
    with S False p k m show ?thesis
      unfolding av_def by (intro exI [of _ S]) (simp add: Let_def)
  qed
qed

theorem pull_nonempty_witness:
  "items \<lparr>items = [''a'', ''b''], used_items = [''b'', ''a'']\<rparr> \<noteq> []
   \<and> pull_random_item \<lparr>items = [''a'', ''b''], used_items = [''b'', ''a'']\<rparr> (sconst 3)
       = Inr (Some ''b'', \<lparr>items = [''a'', ''b''], used_items = [''b'']\<rparr>, sconst 3)"
proof -
  let ?s = "\<lparr>items = [''a'', ''b''], used_items = [''b'', ''a'']\<rparr>"
  have ne: "items ?s \<noteq> []" by simp
  have up: "used_positions (items ?s) (used_items ?s) = Inr {Suc 0, 0}" by simp
  from pull_nonempty [OF ne, of "sconst 3"] obtain used where
    u: "used_positions (items ?s) (used_items ?s) = Inr used"
    and r: "let available_indices = filter (\<lambda>i. i \<notin> used) [0..<length (items ?s)]
            in if available_indices = []
               then (let x = items ?s ! (shd (sconst 3) mod length (items ?s))
                     in pull_random_item ?s (sconst 3)
                          = Inr (Some x, ?s\<lparr>used_items := [x]\<rparr>, stl (sconst 3))
                        \<and> x \<in> set (items ?s))
               else (let k = available_indices ! (shd (sconst 3) mod length available_indices);
                         x = items ?s ! k
                     in pull_random_item ?s (sconst 3)
                          = Inr (Some x, ?s\<lparr>used_items := used_items ?s @ [x]\<rparr>, stl (sconst 3))
                        \<and> k < length (items ?s) \<and> k \<notin> used \<and> x \<in> set (items ?s))"
    by blast
  from u up have used: "used = {Suc 0, 0}" by simp
  have three: "(3::nat) mod Suc (Suc 0) = Suc 0" by presburger
  from r have "pull_random_item ?s (sconst 3)
       = Inr (Some ''b'', \<lparr>items = [''a'', ''b''], used_items = [''b'']\<rparr>, sconst 3)"
    unfolding used by (simp add: Let_def three)
  with ne show ?thesis by blast
qed

lemma pull_distinct_fresh:
  assumes d: "distinct (items s)" and du: "distinct (used_items s)"
    and sub: "set (used_items s) \<subseteq> set (items s)"
    and lt: "length (used_items s) < length (items s)"
  shows "\<exists>x. pull_random_item s g = Inr (Some x, s\<lparr>used_items := used_items s @ [x]\<rparr>, stl g)
           \<and> x \<in> set (items s) \<and> x \<notin> set (used_items s)"
proof -
  let ?its = "items s" and ?us = "used_items s"
  define S where "S = {i. i < length ?its \<and> ?its ! i \<in> set ?us}"
  have up: "used_positions ?its ?us = Inr S"
    using used_positions_distinct [OF d] by (simp add: S_def)
  define av where "av = filter (\<lambda>i. i \<notin> S) [0..<length ?its]"
  have "card (set ?us) < card (set ?its)"
    using d du lt by (simp add: distinct_card)
  then have "\<not> set ?its \<subseteq> set ?us"
    using card_mono [of "set ?us" "set ?its"] by auto
  then obtain x where "x \<in> set ?its" "x \<notin> set ?us" by blast
  then obtain i where i: "i < length ?its" "?its ! i \<notin> set ?us"
    by (metis in_set_conv_nth)
  then have "i \<in> set av" by (simp add: av_def S_def)
  then have ne: "av \<noteq> []" by auto
  then obtain k where k: "random_choice g av = Inr (k, stl g)" "k \<in> set av"
    using random_choice_mem [of av g] by auto
  then have kk: "k < length ?its" "?its ! k \<notin> set ?us" by (auto simp: av_def S_def)
  from lt have "?its \<noteq> []" by auto
  with up ne k(1) kk have
    "pull_random_item s g = Inr (Some (?its ! k), s\<lparr>used_items := ?us @ [?its ! k]\<rparr>, stl g)"
    by (simp add: pull_random_item_def Let_def av_def)
  with kk show ?thesis by auto
qed

lemma pull_distinct_exhausted:
  assumes ne: "items s \<noteq> []" and d: "distinct (items s)"
    and sub: "set (items s) \<subseteq> set (used_items s)"
  shows "pull_random_item s g =
           Inr (Some (items s ! (shd g mod length (items s))),
                s\<lparr>used_items := [items s ! (shd g mod length (items s))]\<rparr>, stl g)"
proof -
  let ?its = "items s" and ?us = "used_items s"
  define S where "S = {i. i < length ?its \<and> ?its ! i \<in> set ?us}"
  have up: "used_positions ?its ?us = Inr S"
    using used_positions_distinct [OF d] by (simp add: S_def)
  have "filter (\<lambda>i. i \<notin> S) [0..<length ?its] = []"
    using sub by (auto simp: S_def filter_empty_conv)
  with ne up show ?thesis
    by (simp add: pull_random_item_def Let_def random_choice_def reset_def)
qed

lemma pull_n_distinct:
  assumes "distinct (items s)" "distinct (used_items s)"
    "set (used_items s) \<subseteq> set (items s)"
    "length (used_items s) + k \<le> length (items s)"
  shows "\<exists>xs. pull_n k s g = Inr (map Some xs, s\<lparr>used_items := used_items s @ xs\<rparr>, sdrop k g)
           \<and> length xs = k \<and> distinct (used_items s @ xs) \<and> set xs \<subseteq> set (items s)"
  using assms
proof (induction k arbitrary: s g)
  case 0
  then show ?case by simp
next
  case (Suc k)
  then have "length (used_items s) < length (items s)" by simp
  with Suc.prems obtain x where x:
    "pull_random_item s g = Inr (Some x, s\<lparr>used_items := used_items s @ [x]\<rparr>, stl g)"
    "x \<in> set (items s)" "x \<notin> set (used_items s)"
    using pull_distinct_fresh [of s g] by blast
  let ?s' = "s\<lparr>used_items := used_items s @ [x]\<rparr>"
  have "distinct (items ?s')" "distinct (used_items ?s')"
    "set (used_items ?s') \<subseteq> set (items ?s')"
    "length (used_items ?s') + k \<le> length (items ?s')"
    using Suc.prems x by auto
  from Suc.IH [OF this, of "stl g"] obtain xs where xs:
    "pull_n k ?s' (stl g) = Inr (map Some xs, ?s'\<lparr>used_items := used_items ?s' @ xs\<rparr>, sdrop k (stl g))"
    "length xs = k" "distinct (used_items ?s' @ xs)" "set xs \<subseteq> set (items ?s')"
    by blast
  have "pull_n (Suc k) s g
      = Inr (map Some (x # xs), s\<lparr>used_items := used_items s @ (x # xs)\<rparr>, sdrop (Suc k) g)"
    using x(1) xs(1) by simp
  moreover have "length (x # xs) = Suc k" using xs(2) by simp
  moreover have "distinct (used_items s @ (x # xs))" using xs(3) by simp
  moreover have "set (x # xs) \<subseteq> set (items s)" using xs(4) x(2) by simp
  ultimately show ?case by blast
qed

text \<open>
  Claim C3. A selector built from \<open>N\<close> pairwise distinct items, under any random source:
  \<open>N\<close> consecutive calls raise nothing and return every item exactly once (the returned
  values are distinct and form the same multiset as the pool). The call after those clears
  \<open>used_items\<close> itself and draws from the whole pool, so it returns a value that was
  returned before and leaves exactly that value in \<open>used_items\<close>.
\<close>

theorem no_repeat_until_exhaustion:
  assumes "distinct xs"
  shows "\<exists>outs s'.
           pull_n (length xs) (RandomItemSelector_init (Some xs)) g
             = Inr (map Some outs, s', sdrop (length xs) g)
           \<and> distinct outs \<and> mset outs = mset xs
           \<and> (xs \<noteq> [] \<longrightarrow>
                (\<exists>y. pull_random_item s' (sdrop (length xs) g)
                        = Inr (Some y, s'\<lparr>used_items := [y]\<rparr>, sdrop (Suc (length xs)) g)
                   \<and> y = xs ! (shd (sdrop (length xs) g) mod length xs)
                   \<and> y \<in> set outs))"
proof -
  let ?s = "RandomItemSelector_init (Some xs)"
  have its: "items ?s = xs" and us: "used_items ?s = []"
    by (simp_all add: RandomItemSelector_init_def)
  from pull_n_distinct [of ?s "length xs" g] assms its us
  obtain outs where outs:
    "pull_n (length xs) ?s g = Inr (map Some outs, ?s\<lparr>used_items := outs\<rparr>, sdrop (length xs) g)"
    "length outs = length xs" "distinct outs" "set outs \<subseteq> set xs"
    by auto
  have "card (set outs) = card (set xs)"
    using outs(2,3) assms by (simp add: distinct_card)
  with outs(4) have seteq: "set outs = set xs"
    by (simp add: card_subset_eq)
  with outs(3) assms have m: "mset outs = mset xs"
    by (simp add: set_eq_iff_mset_eq_distinct)
  let ?s' = "?s\<lparr>used_items := outs\<rparr>"
  have ex: "xs \<noteq> [] \<longrightarrow>
        (\<exists>y. pull_random_item ?s' (sdrop (length xs) g)
                = Inr (Some y, ?s'\<lparr>used_items := [y]\<rparr>, sdrop (Suc (length xs)) g)
            \<and> y = xs ! (shd (sdrop (length xs) g) mod length xs)
            \<and> y \<in> set outs)"
  proof
    assume ne: "xs \<noteq> []"
    have "pull_random_item ?s' (sdrop (length xs) g) =
           Inr (Some (items ?s' ! (shd (sdrop (length xs) g) mod length (items ?s'))),
                ?s'\<lparr>used_items := [items ?s' ! (shd (sdrop (length xs) g) mod length (items ?s'))]\<rparr>,
                stl (sdrop (length xs) g))"
      using ne assms seteq its by (intro pull_distinct_exhausted) simp_all
    moreover have "xs ! (shd (sdrop (length xs) g) mod length xs) \<in> set outs"
      using ne seteq by simp
    ultimately show "\<exists>y. pull_random_item ?s' (sdrop (length xs) g)
                = Inr (Some y, ?s'\<lparr>used_items := [y]\<rparr>, sdrop (Suc (length xs)) g)
            \<and> y = xs ! (shd (sdrop (length xs) g) mod length xs)
            \<and> y \<in> set outs"
      using its by (simp add: sdrop_simps)
  qed
  from outs(1) outs(3) m ex show ?thesis by blast
qed

theorem no_repeat_until_exhaustion_witness:
  "distinct [''a'', ''b'', ''c''] \<and> [''a'', ''b'', ''c''] \<noteq> []
   \<and> (\<exists>outs s'.
         pull_n (length [''a'', ''b'', ''c''])
             (RandomItemSelector_init (Some [''a'', ''b'', ''c''])) (sconst 1)
           = Inr (map Some outs, s', sdrop (length [''a'', ''b'', ''c'']) (sconst 1))
         \<and> distinct outs \<and> mset outs = mset [''a'', ''b'', ''c'']
         \<and> (\<exists>y. pull_random_item s' (sdrop (length [''a'', ''b'', ''c'']) (sconst 1))
                    = Inr (Some y, s'\<lparr>used_items := [y]\<rparr>,
                           sdrop (Suc (length [''a'', ''b'', ''c''])) (sconst 1))
                \<and> y \<in> set outs))"
proof -
  have d: "distinct [''a'', ''b'', ''c'']" by simp
  have ne: "[''a'', ''b'', ''c''] \<noteq> []" by simp
  from no_repeat_until_exhaustion [OF d, of "sconst 1"] obtain outs s' where
    h: "pull_n (length [''a'', ''b'', ''c''])
             (RandomItemSelector_init (Some [''a'', ''b'', ''c''])) (sconst 1)
           = Inr (map Some outs, s', sdrop (length [''a'', ''b'', ''c'']) (sconst 1))"
       "distinct outs" "mset outs = mset [''a'', ''b'', ''c'']"
       "[''a'', ''b'', ''c''] \<noteq> [] \<longrightarrow>
          (\<exists>y. pull_random_item s' (sdrop (length [''a'', ''b'', ''c'']) (sconst 1))
                    = Inr (Some y, s'\<lparr>used_items := [y]\<rparr>,
                           sdrop (Suc (length [''a'', ''b'', ''c''])) (sconst 1))
              \<and> y = [''a'', ''b'', ''c''] !
                     (shd (sdrop (length [''a'', ''b'', ''c'']) (sconst 1)) mod length [''a'', ''b'', ''c''])
              \<and> y \<in> set outs)"
    by blast
  from h(4) ne obtain y where
    y: "pull_random_item s' (sdrop (length [''a'', ''b'', ''c'']) (sconst 1))
          = Inr (Some y, s'\<lparr>used_items := [y]\<rparr>,
                 sdrop (Suc (length [''a'', ''b'', ''c''])) (sconst 1))"
       "y \<in> set outs"
    by blast
  from d ne h(1,2,3) y show ?thesis by blast
qed

lemma pull_n_empty:
  "items s = [] \<Longrightarrow> pull_n (Suc n) s g = Inr (replicate (Suc n) None, s\<lparr>used_items := []\<rparr>, g)"
proof (induction n arbitrary: s)
  case 0
  then show ?case by (simp add: pull_random_item_def)
next
  case (Suc n)
  have "pull_random_item s g = Inr (None, s\<lparr>used_items := []\<rparr>, g)"
    using Suc.prems by (simp add: pull_random_item_def)
  moreover have "pull_n (Suc n) (s\<lparr>used_items := []\<rparr>) g
      = Inr (replicate (Suc n) None, s\<lparr>used_items := []\<rparr>, g)"
    using Suc.IH [of "s\<lparr>used_items := []\<rparr>"] Suc.prems by simp
  ultimately show ?case by simp
qed

text \<open>
  On pools of pairwise different values the selector keeps \<open>used_items\<close> a
  duplicate-free part of \<open>items\<close>, through any sequence of operations.
\<close>

lemma pull_preserves_inv:
  assumes inv: "selector_inv s" and p: "pull_random_item s g = Inr (x, s', g')"
  shows "selector_inv s' \<and> items s' = items s"
proof (cases "items s = []")
  case True
  with p have "s' = s\<lparr>used_items := []\<rparr>" by (simp add: pull_random_item_def)
  with inv show ?thesis by (simp add: selector_inv_def)
next
  case ne: False
  from inv have d: "distinct (items s)" and du: "distinct (used_items s)"
    and sub: "set (used_items s) \<subseteq> set (items s)"
    by (simp_all add: selector_inv_def)
  show ?thesis
  proof (cases "length (used_items s) < length (items s)")
    case True
    from pull_distinct_fresh [OF d du sub True, of g] p
    obtain y where "s' = s\<lparr>used_items := used_items s @ [y]\<rparr>"
      "y \<in> set (items s)" "y \<notin> set (used_items s)"
      by auto
    with inv show ?thesis by (simp add: selector_inv_def)
  next
    case False
    then have "card (set (items s)) \<le> card (set (used_items s))"
      using d du by (simp add: distinct_card)
    with sub have "set (used_items s) = set (items s)"
      by (simp add: card_seteq)
    then have "set (items s) \<subseteq> set (used_items s)" by simp
    from pull_distinct_exhausted [OF ne d this, of g] p
    have "s' = s\<lparr>used_items := [items s ! (shd g mod length (items s))]\<rparr>"
      by simp
    moreover have "items s ! (shd g mod length (items s)) \<in> set (items s)"
      using ne by simp
    ultimately show ?thesis using inv by (simp add: selector_inv_def)
  qed
qed

lemma run_ops_preserves_inv:
  "selector_inv s \<Longrightarrow> fresh_adds ops (items s) \<Longrightarrow> run_ops ops s g = Inr (s', g')
   \<Longrightarrow> selector_inv s'"
proof (induction ops s g rule: run_ops.induct)
  case (1 s g)
  then show ?case by simp
next
  case (2 x ops s g)
  from "2.prems" have "selector_inv (add_item s x)"
    by (auto simp: selector_inv_def add_item_def)
  moreover from "2.prems" have "fresh_adds ops (items (add_item s x))"
    by (simp add: add_item_def)
  ultimately show ?case using "2.IH" "2.prems"(3) by simp
next
  case (3 ops s g)
  from "3.prems" have "selector_inv (reset s)" "fresh_adds ops (items (reset s))"
    by (simp_all add: selector_inv_def reset_def)
  then show ?case using "3.IH" "3.prems"(3) by simp
next
  case (4 ops s g)
  from "4.prems"(3) obtain x s1 g1 where p: "pull_random_item s g = Inr (x, s1, g1)"
    and r: "run_ops ops s1 g1 = Inr (s', g')"
    by (auto split: sum.splits)
  from pull_preserves_inv [OF "4.prems"(1) p]
  have "selector_inv s1" "items s1 = items s" by simp_all
  with "4.prems"(2) have "fresh_adds ops (items s1)" by simp
  from "4.IH" [OF p refl refl \<open>selector_inv s1\<close> this r]
  show ?case .
qed

lemma distinct_pool_sub_multiset:
  assumes "distinct xs" "fresh_adds ops xs"
    "run_ops ops (RandomItemSelector_init (Some xs)) g = Inr (s', g')"
  shows "mset (used_items s') \<subseteq># mset (items s')"
proof -
  have "selector_inv (RandomItemSelector_init (Some xs))"
    "items (RandomItemSelector_init (Some xs)) = xs"
    using assms(1) by (simp_all add: selector_inv_def RandomItemSelector_init_def)
  with assms have "selector_inv s'"
    using run_ops_preserves_inv [of "RandomItemSelector_init (Some xs)" ops g s' g'] by simp
  then have "distinct (used_items s')" "set (used_items s') \<subseteq> set (items s')"
    by (simp_all add: selector_inv_def)
  then have du: "distinct (used_items s')" and sub: "set (used_items s') \<subseteq> set (items s')"
    by simp_all
  show ?thesis
  proof (rule mset_subset_eqI)
    fix a
    show "count (mset (used_items s')) a \<le> count (mset (items s')) a"
    proof (cases "a \<in> set (used_items s')")
      case True
      with du have "count (mset (used_items s')) a = 1"
        by (simp add: distinct_count_atmost_1)
      moreover from True sub have "a \<in># mset (items s')" by auto
      then have "0 < count (mset (items s')) a" by (simp only: count_greater_zero_iff)
      ultimately show ?thesis by simp
    next
      case False
      then have "a \<notin># mset (used_items s')" by simp
      then have c0: "count (mset (used_items s')) a = 0"
        by (simp only: not_in_iff)
      show ?thesis unfolding c0 by (rule le0)
    qed
  qed
qed

text \<open>
  Claim C7. On a selector whose pool is empty, \<open>pull_random_item\<close> returns \<open>None\<close>,
  raises nothing, consumes no random number and leaves \<open>used_items\<close> empty; the same
  holds for any number of consecutive calls.
\<close>

theorem empty_pool_returns_none:
  assumes "items s = []"
  shows "pull_random_item s g = Inr (None, s\<lparr>used_items := []\<rparr>, g)
       \<and> pull_n (Suc n) s g = Inr (replicate (Suc n) None, s\<lparr>used_items := []\<rparr>, g)"
  using assms pull_n_empty [of s n g] by (simp add: pull_random_item_def)

theorem empty_pool_returns_none_witness:
  "items (RandomItemSelector_init (None :: string list option)) = []
   \<and> pull_random_item (RandomItemSelector_init (None :: string list option)) (sconst 5)
       = Inr (None, \<lparr>items = [], used_items = []\<rparr>, sconst 5)
   \<and> pull_n 3 (RandomItemSelector_init (None :: string list option)) (sconst 5)
       = Inr ([None, None, None], \<lparr>items = [], used_items = []\<rparr>, sconst 5)"
  using empty_pool_returns_none
    [of "RandomItemSelector_init (None :: string list option)" "sconst 5" 2]
  by (simp add: RandomItemSelector_init_def numeral_3_eq_3)

text \<open>
  Claim C8. \<open>reset\<close> applied twice is \<open>reset\<close> applied once, it never changes
  \<open>items\<close>, it leaves \<open>used_items\<close> empty, and on a selector with no draw recorded
  (\<open>used_items\<close> empty) it returns the very same state, so every later call behaves as
  it would have without the reset.
\<close>

theorem reset_idempotent:
  "reset (reset s) = reset s \<and> items (reset s) = items s \<and> used_items (reset s) = []
   \<and> (used_items s = [] \<longrightarrow> reset s = s)"
  by (simp add: reset_def)

theorem reset_idempotent_witness:
  "used_items (RandomItemSelector_init (Some [''a'', ''b''])) = []
   \<and> reset (RandomItemSelector_init (Some [''a'', ''b''])) = RandomItemSelector_init (Some [''a'', ''b''])
   \<and> reset (reset (RandomItemSelector_init (Some [''a'', ''b''])))
       = \<lparr>items = [''a'', ''b''], used_items = []\<rparr>"
  using reset_idempotent [of "RandomItemSelector_init (Some [''a'', ''b''])"]
  by (simp add: RandomItemSelector_init_def)

text \<open>
  Claim C2. The claim asks that \<open>used_items\<close> stays a sub-multiset of \<open>items\<close> in
  every reachable state. \<open>list.index\<close> gives the first position of a value, so with the
  pool \<open>[A, A]\<close> position 1 is never counted as used: three calls of
  \<open>pull_random_item\<close> leave three copies of \<open>A\<close> in \<open>used_items\<close>, one more than
  the pool holds. The theorem evaluates the code on that input.
\<close>

theorem used_items_exceeds_pool:
  "run_ops [PullRandomItem, PullRandomItem, PullRandomItem]
       (RandomItemSelector_init (Some [''A'', ''A''])) (sconst 0)
     = Inr (\<lparr>items = [''A'', ''A''], used_items = [''A'', ''A'', ''A'']\<rparr>, sconst 0)
   \<and> \<not> mset [''A'', ''A'', ''A''] \<subseteq># mset [''A'', ''A'']"
proof -
  have "size (mset [''A'', ''A'', ''A'']) > size (mset [''A'', ''A''])" by simp
  then have "\<not> mset [''A'', ''A'', ''A''] \<subseteq># mset [''A'', ''A'']"
    using size_mset_mono by fastforce
  then show ?thesis
    by (simp add: pull_random_item_def RandomItemSelector_init_def
      random_choice_def Let_def)
qed

lemma dup_pull_first:
  "pull_random_item \<lparr>items = [''A'', ''A'', ''B''], used_items = []\<rparr> (sconst 0)
     = Inr (Some ''A'', \<lparr>items = [''A'', ''A'', ''B''], used_items = [''A'']\<rparr>, sconst 0)"
  by (simp add: pull_random_item_def random_choice_def Let_def)

lemma dup_pull_second:
  "pull_random_item \<lparr>items = [''A'', ''A'', ''B''], used_items = [''A'']\<rparr> (sconst 0)
     = Inr (Some ''A'', \<lparr>items = [''A'', ''A'', ''B''], used_items = [''A'', ''A'']\<rparr>, sconst 0)"
  by (simp add: pull_random_item_def random_choice_def Let_def)

lemma dup_pull_third:
  "pull_random_item \<lparr>items = [''A'', ''A'', ''B''], used_items = [''A'', ''A'']\<rparr> (sconst 0)
     = Inr (Some ''A'', \<lparr>items = [''A'', ''A'', ''B''], used_items = [''A'', ''A'', ''A'']\<rparr>, sconst 0)"
  by (simp add: pull_random_item_def random_choice_def Let_def)

text \<open>
  Claim C1. The claim asks that three draws from the pool \<open>[A, A, B]\<close> return \<open>A\<close>
  twice and \<open>B\<close> once. The code marks a drawn value as used at the first position
  holding an equal value (\<open>list.index\<close>), so position 1 stays available after it has
  been drawn: with a random source that always yields 0 the three draws are
  \<open>A\<close> (position 0), \<open>A\<close> (position 1) and \<open>A\<close> (position 1 again), and \<open>B\<close> is
  not returned. The theorem evaluates the code on that input.
\<close>

theorem duplicate_values_collapse:
  "pull_n 3 (RandomItemSelector_init (Some [''A'', ''A'', ''B''])) (sconst 0)
     = Inr ([Some ''A'', Some ''A'', Some ''A''],
            \<lparr>items = [''A'', ''A'', ''B''], used_items = [''A'', ''A'', ''A'']\<rparr>,
            sconst 0)"
proof -
  have init: "RandomItemSelector_init (Some [''A'', ''A'', ''B''])
      = \<lparr>items = [''A'', ''A'', ''B''], used_items = []\<rparr>"
    by (simp add: RandomItemSelector_init_def)
  have three: "(3::nat) = Suc (Suc (Suc 0))" by simp
  show ?thesis
    unfolding init three
    by (simp only: pull_n.simps dup_pull_first dup_pull_second dup_pull_third
        sum.case prod.case)
qed

section \<open>Properties of the rule tables and the spell duel\<close>

lemma determine_winner_table:
  "determine_winner ''scissors'' ''lizard'' = (''win'', ''Scissors decapitate lizard'')"
  "determine_winner ''lizard'' ''scissors'' = (''lose'', ''Scissors decapitate lizard'')"
  "determine_winner ''scissors'' ''paper'' = (''win'', ''Scissors cuts paper'')"
  "determine_winner ''paper'' ''scissors'' = (''lose'', ''Scissors cuts paper'')"
  "determine_winner ''paper'' ''rock'' = (''win'', ''Paper covers rock'')"
  "determine_winner ''rock'' ''paper'' = (''lose'', ''Paper covers rock'')"
  "determine_winner ''rock'' ''lizard'' = (''win'', ''Rock crushes lizard'')"
  "determine_winner ''lizard'' ''rock'' = (''lose'', ''Rock crushes lizard'')"
  "determine_winner ''lizard'' ''spock'' = (''win'', ''Lizard poisons Spock'')"
  "determine_winner ''spock'' ''lizard'' = (''lose'', ''Lizard poisons Spock'')"
  "determine_winner ''spock'' ''scissors'' = (''win'', ''Spock smashes scissors'')"
  "determine_winner ''scissors'' ''spock'' = (''lose'', ''Spock smashes scissors'')"
  "determine_winner ''lizard'' ''paper'' = (''win'', ''Lizard eats paper'')"
  "determine_winner ''paper'' ''lizard'' = (''lose'', ''Lizard eats paper'')"
  "determine_winner ''paper'' ''spock'' = (''win'', ''Paper disproves Spock'')"
  "determine_winner ''spock'' ''paper'' = (''lose'', ''Paper disproves Spock'')"
  "determine_winner ''spock'' ''rock'' = (''win'', ''Spock vaporizes rock'')"
  "determine_winner ''rock'' ''spock'' = (''lose'', ''Spock vaporizes rock'')"
  "determine_winner ''rock'' ''scissors'' = (''win'', ''Rock crushes scissors'')"
  "determine_winner ''scissors'' ''rock'' = (''lose'', ''Rock crushes scissors'')"
  by (simp_all add: determine_winner_def RULES_def)

text \<open>
  Claim C4. \<open>CHOICES\<close> holds five different choices. For every ordered pair of
  different choices \<open>determine_winner\<close> answers \<open>win\<close> or \<open>lose\<close> (never \<open>tie\<close>
  or the \<open>error\<close> fallback), the answer for the swapped pair is the opposite one, and
  both carry the same reason text.
\<close>

theorem rpsls_complete:
  "length CHOICES = 5 \<and> distinct CHOICES \<and>
   (\<forall>x\<in>set CHOICES. \<forall>y\<in>set CHOICES. x \<noteq> y \<longrightarrow>
      (fst (determine_winner x y) = ''win'' \<or> fst (determine_winner x y) = ''lose'')
      \<and> (fst (determine_winner x y) = ''win'' \<longleftrightarrow> fst (determine_winner y x) = ''lose'')
      \<and> (fst (determine_winner x y) = ''lose'' \<longleftrightarrow> fst (determine_winner y x) = ''win'')
      \<and> snd (determine_winner x y) = snd (determine_winner y x))"
  by (simp add: CHOICES_def determine_winner_table)

theorem rpsls_complete_witness:
  "''rock'' \<in> set CHOICES \<and> ''scissors'' \<in> set CHOICES \<and> ''rock'' \<noteq> ''scissors''
   \<and> (fst (determine_winner ''rock'' ''scissors'') = ''win''
        \<or> fst (determine_winner ''rock'' ''scissors'') = ''lose'')
   \<and> (fst (determine_winner ''rock'' ''scissors'') = ''win''
        \<longleftrightarrow> fst (determine_winner ''scissors'' ''rock'') = ''lose'')
   \<and> (fst (determine_winner ''rock'' ''scissors'') = ''lose''
        \<longleftrightarrow> fst (determine_winner ''scissors'' ''rock'') = ''win'')
   \<and> snd (determine_winner ''rock'' ''scissors'') = snd (determine_winner ''scissors'' ''rock'')"
proof -
  have m1: "''rock'' \<in> set CHOICES" by (simp add: CHOICES_def)
  have m2: "''scissors'' \<in> set CHOICES" by (simp add: CHOICES_def)
  have m3: "''rock'' \<noteq> ''scissors''" by simp
  note inst = rpsls_complete [THEN conjunct2, THEN conjunct2, rule_format, OF m1 m2 m3]
  from m1 m2 m3 inst show ?thesis by (intro conjI) (rule m1 m2 m3 | elim conjE, assumption)+
qed


text \<open>
  Claim C10. The spell table is a tournament on the five spells: every spell beats
  exactly two spells, both different from itself, and of two different spells exactly
  one beats the other, so for different choices exactly one of the win branch and the
  lose branch of the duel applies.
\<close>

theorem game_rules_tournament:
  "length choices = 5 \<and> distinct choices \<and>
   (\<forall>p\<in>set choices. \<exists>beaten. map_of game_rules p = Some beaten \<and> length beaten = 2
        \<and> distinct beaten \<and> set beaten \<subseteq> set choices - {p}) \<and>
   (\<forall>p\<in>set choices. \<forall>q\<in>set choices. p \<noteq> q \<longrightarrow> (beats p q \<longleftrightarrow> \<not> beats q p))"
  by (simp add: choices_def game_rules_def beats_def)

lemma length_choices: "length choices = 5"
  by (simp add: choices_def game_rules_def)

lemma game_rules_lookup:
  "p \<in> set choices \<Longrightarrow> \<exists>beaten. map_of game_rules p = Some beaten"
  by (cases "map_of game_rules p") (simp_all add: choices_def map_of_eq_None_iff)

text \<open>
  Claim C5. One round of the duel on a valid line (an integer from 1 to 5 after
  \<open>strip\<close>), whatever the random source draws for the wizard: equal spells give no
  outcome and the encounter goes on with the next line; otherwise the encounter returns
  \<open>CONTINUE\<close> when the wizard's spell is in the player's list of beaten spells and
  \<open>END\<close> when it is not.
\<close>

theorem spell_duel_round:
  assumes line: "stdin w = line # rest"
    and valid: "to_int (str_strip line) = Some n" "1 \<le> n" "n \<le> 5"
  shows "\<exists>beaten. map_of game_rules (choices ! nat (n - 1)) = Some beaten \<and>
           RedWizard_run_encounter to_int w =
             (if choices ! nat (n - 1) = choices ! (shd (rand w) mod 5)
              then RedWizard_run_encounter to_int (w\<lparr>stdin := rest, rand := stl (rand w)\<rparr>)
              else if choices ! (shd (rand w) mod 5) \<in> set beaten
                   then Inr (CONTINUE, w\<lparr>stdin := rest, rand := stl (rand w)\<rparr>)
                   else Inr (END, w\<lparr>stdin := rest, rand := stl (rand w)\<rparr>))"
proof -
  let ?player = "choices ! nat (n - 1)" and ?wizard = "choices ! (shd (rand w) mod 5)"
  from valid have idx: "nat (n - 1) < length choices" "\<not> (n - 1 < 0)" "\<not> (n - 1 \<ge> int (length choices))"
    by (simp_all add: length_choices)
  then have "?player \<in> set choices" by simp
  then obtain beaten where b: "map_of game_rules ?player = Some beaten"
    using game_rules_lookup by blast
  have ne: "choices \<noteq> []" using length_choices by auto
  have rc: "random_choice (rand w) choices = Inr (?wizard, stl (rand w))"
    using ne by (simp add: random_choice_def length_choices)
  have loop: "RedWizard_loop to_int (line # rest) (rand w) =
      (if ?player = ?wizard then RedWizard_loop to_int rest (stl (rand w))
       else if ?wizard \<in> set beaten then Inr (CONTINUE, rest, stl (rand w))
       else Inr (END, rest, stl (rand w)))"
    using valid(1) idx(2,3) rc b by (simp add: Let_def)
  have "RedWizard_run_encounter to_int w =
      (if ?player = ?wizard
       then RedWizard_run_encounter to_int (w\<lparr>stdin := rest, rand := stl (rand w)\<rparr>)
       else if ?wizard \<in> set beaten
            then Inr (CONTINUE, w\<lparr>stdin := rest, rand := stl (rand w)\<rparr>)
            else Inr (END, w\<lparr>stdin := rest, rand := stl (rand w)\<rparr>))"
    unfolding RedWizard_run_encounter_def line loop
    by (simp split: sum.splits prod.splits)
  with b show ?thesis by blast
qed

theorem game_rules_tournament_witness:
  "''Fireball'' \<in> set choices \<and> ''Ice Shard'' \<in> set choices \<and> ''Fireball'' \<noteq> ''Ice Shard''
   \<and> (\<exists>beaten. map_of game_rules ''Fireball'' = Some beaten \<and> length beaten = 2
         \<and> distinct beaten \<and> set beaten \<subseteq> set choices - {''Fireball''})
   \<and> (beats ''Fireball'' ''Ice Shard'' \<longleftrightarrow> \<not> beats ''Ice Shard'' ''Fireball'')"
proof -
  have m1: "''Fireball'' \<in> set choices" by (simp add: choices_def game_rules_def)
  have m2: "''Ice Shard'' \<in> set choices" by (simp add: choices_def game_rules_def)
  have m3: "''Fireball'' \<noteq> ''Ice Shard''" by simp
  note t = game_rules_tournament [THEN conjunct2, THEN conjunct2]
  note a = t [THEN conjunct1, rule_format, OF m1]
  note b = t [THEN conjunct2, rule_format, OF m1 m2 m3]
  show ?thesis
    apply (intro conjI)
        apply (rule m1)
       apply (rule m2)
      apply (rule m3)
     apply (rule a)
    apply (rule b)
    done
qed

theorem spell_duel_round_witness:
  "stdin \<lparr>stdin = [''1''], rand = sconst 1, scg = SenseClueGenerator_new\<rparr> = ''1'' # []
   \<and> digit_int (str_strip ''1'') = Some 1 \<and> (1::int) \<le> 1 \<and> (1::int) \<le> 5
   \<and> RedWizard_run_encounter digit_int \<lparr>stdin = [''1''], rand = sconst 1, scg = SenseClueGenerator_new\<rparr>
       = Inr (CONTINUE, \<lparr>stdin = [], rand = sconst 1, scg = SenseClueGenerator_new\<rparr>)"
proof -
  let ?w = "\<lparr>stdin = [''1''], rand = sconst 1, scg = SenseClueGenerator_new\<rparr>"
  have h1: "stdin ?w = ''1'' # []" by simp
  have h2: "digit_int (str_strip ''1'') = Some 1"
    by (simp add: digit_int_def str_strip_def isspace_def)
  have h3: "(1::int) \<le> 1" and h4: "(1::int) \<le> 5" by simp_all
  have p: "choices ! nat (1 - 1) = ''Fireball''" "choices ! (shd (rand ?w) mod 5) = ''Ice Shard''"
    by (simp_all add: choices_def game_rules_def)
  have l: "map_of game_rules ''Fireball'' = Some [''Ice Shard'', ''Lightning Bolt'']"
    by (simp add: game_rules_def)
  from spell_duel_round [of ?w "''1''" "[]" digit_int 1, OF h1 h2 h3 h4] obtain beaten where
    b: "map_of game_rules (choices ! nat (1 - 1)) = Some beaten"
    and r: "RedWizard_run_encounter digit_int ?w =
             (if choices ! nat (1 - 1) = choices ! (shd (rand ?w) mod 5)
              then RedWizard_run_encounter digit_int (?w\<lparr>stdin := [], rand := stl (rand ?w)\<rparr>)
              else if choices ! (shd (rand ?w) mod 5) \<in> set beaten
                   then Inr (CONTINUE, ?w\<lparr>stdin := [], rand := stl (rand ?w)\<rparr>)
                   else Inr (END, ?w\<lparr>stdin := [], rand := stl (rand ?w)\<rparr>))"
    by blast
  from b l have beaten: "beaten = [''Ice Shard'', ''Lightning Bolt'']"
    unfolding p by simp
  have "RedWizard_run_encounter digit_int ?w
      = Inr (CONTINUE, \<lparr>stdin = [], rand = sconst 1, scg = SenseClueGenerator_new\<rparr>)"
    unfolding r p beaten by simp
  with h1 h2 h3 h4 show ?thesis by blast
qed

section \<open>Properties of the game loop\<close>

lemma pull_random_item_items:
  "pull_random_item s g = Inr (x, s', g') \<Longrightarrow> items s' = items s"
  by (auto simp: pull_random_item_def Let_def reset_def
      split: if_splits sum.splits prod.splits)

lemma next_room_items:
  "next_room to_int c w = Inr (outcome, c', w') \<Longrightarrow>
   items (room_selector c') = items (room_selector c)"
  by (auto simp: next_room_def Let_def
      split: sum.splits prod.splits option.splits dest: pull_random_item_items)

lemma Castle_reset_eq:
  "Castle_reset (c :: Castle)
     = \<lparr>room_selector = \<lparr>items = items (room_selector c), used_items = []\<rparr>\<rparr>"
  by (cases c) (simp add: Castle_reset_def reset_def)

lemma Castle_init_eq:
  "Castle_init (Some rs) = \<lparr>room_selector = \<lparr>items = rs, used_items = []\<rparr>\<rparr>"
  by (simp add: Castle_init_def RandomItemSelector_init_def)

text \<open>
  Claim C6, as amended. When the room visit of a round yields \<open>END\<close>, the castle is
  reset and one line is read as the answer to the replay prompt. If the answer, after
  \<open>strip\<close> and \<open>lower\<close>, starts with \<open>y\<close>, the loop goes on with the same castle,
  whose selector has just been reset: \<open>used_items\<close> is empty and the pool is unchanged,
  which is the state of a fresh \<open>Castle\<close> over the same rooms. With any other answer
  the loop ends.
\<close>

theorem play_game_on_end:
  fixes game :: Game
  assumes visit: "next_room to_int (castle game) w = Inr (END, c', w')"
    and answer: "stdin w' = line # rest"
  shows "play_game to_int game w =
           (if str_startswith (str_lower (str_strip line)) ''y''
            then play_game to_int (game\<lparr>castle := Castle_reset c'\<rparr>) (w'\<lparr>stdin := rest\<rparr>)
            else Inr (game\<lparr>castle := Castle_reset c'\<rparr>, w'\<lparr>stdin := rest\<rparr>))
       \<and> used_items (room_selector (Castle_reset c')) = []
       \<and> items (room_selector (Castle_reset c')) = items (room_selector (castle game))
       \<and> Castle_reset c' = Castle_init (Some (items (room_selector (castle game))))"
proof -
  have its: "items (room_selector c') = items (room_selector (castle game))"
    using visit by (rule next_room_items)
  have step: "play_game to_int game w =
           (if str_startswith (str_lower (str_strip line)) ''y''
            then play_game to_int (game\<lparr>castle := Castle_reset c'\<rparr>) (w'\<lparr>stdin := rest\<rparr>)
            else Inr (game\<lparr>castle := Castle_reset c'\<rparr>, w'\<lparr>stdin := rest\<rparr>))"
    by (subst play_game.simps) (simp add: visit answer Let_def)
  have eq: "Castle_reset c' = Castle_init (Some (items (room_selector (castle game))))"
    unfolding Castle_reset_eq Castle_init_eq its ..
  have "used_items (room_selector (Castle_reset c')) = []"
    "items (room_selector (Castle_reset c')) = items (room_selector (castle game))"
    unfolding Castle_reset_eq using its by simp_all
  with step eq show ?thesis by simp
qed

lemma treasure_next_room:
  assumes "encounter T = TreasureEncounter"
  shows "next_room digit_int \<lparr>room_selector = \<lparr>items = [T], used_items = []\<rparr>\<rparr>
             \<lparr>stdin = ''1'' # rest, rand = sconst 0, scg = S\<rparr>
           = Inr (END, \<lparr>room_selector = \<lparr>items = [T], used_items = [T]\<rparr>\<rparr>,
                  \<lparr>stdin = rest, rand = sconst 0, scg = S\<rparr>)"
proof -
  have door: "select_door digit_int \<lparr>stdin = ''1'' # rest, rand = sconst 0, scg = S\<rparr>
      = Inr (1, \<lparr>stdin = rest, rand = sconst 0, scg = S\<rparr>)"
    by (simp add: select_door_def random_randint_def digit_int_def str_strip_def isspace_def)
  have pull: "pull_random_item \<lparr>items = [T], used_items = []\<rparr> (sconst 0)
      = Inr (Some T, \<lparr>items = [T], used_items = [T]\<rparr>, sconst 0)"
    by (simp add: pull_random_item_def random_choice_def Let_def)
  have visit: "visit_room digit_int T \<lparr>stdin = rest, rand = sconst 0, scg = S\<rparr>
      = Inr (END, \<lparr>stdin = rest, rand = sconst 0, scg = S\<rparr>)"
    using assms by (simp add: visit_room_def run_encounter_def TreasureEncounter_run_encounter_def)
  show ?thesis
    by (simp add: next_room_def door pull visit)
qed

lemma treasure_game_init:
  "Game_init (Some [T]) = \<lparr>castle = \<lparr>room_selector = \<lparr>items = [T], used_items = []\<rparr>\<rparr>\<rparr>"
  by (simp add: Game_init_def Castle_init_eq)

lemma treasure_round:
  assumes "encounter T = TreasureEncounter"
  shows "play_game digit_int (Game_init (Some [T]))
             \<lparr>stdin = ''1'' # answer # rest, rand = sconst 0, scg = S\<rparr>
           = (if str_startswith (str_lower (str_strip answer)) ''y''
              then play_game digit_int (Game_init (Some [T]))
                     \<lparr>stdin = rest, rand = sconst 0, scg = S\<rparr>
              else Inr (Game_init (Some [T]), \<lparr>stdin = rest, rand = sconst 0, scg = S\<rparr>))"
  unfolding treasure_game_init
  by (subst play_game.simps)
    (simp add: treasure_next_room [OF assms] Let_def Castle_reset_def reset_def)

text \<open>
  The two blanks above the ASCII range are stripped as Python strips them, and the
  capitals above the ASCII range are lower-cased: an answer made of a no-break space and
  \<open>Y\<close> restarts the exploration.
\<close>

lemma str_strip_no_break_space:
  "str_strip [CHR 0xA0, CHR ''y'', CHR 0x85] = ''y''"
  by (simp add: str_strip_def isspace_def)

lemma str_lower_above_ascii:
  "str_lower [CHR 0xC9, CHR ''Y'', CHR 0xD7, CHR 0xDF] = [CHR 0xE9, CHR ''y'', CHR 0xD7, CHR 0xDF]"
  by (simp add: str_lower_def lower_char_def upper_chars_def lower_chars_def)

lemma no_break_space_answer_restarts:
  "play_game digit_int (Game_init (Some [\<lparr>room_id = 6, name = ''Treasure Room'', encounter = TreasureEncounter\<rparr>]))
     \<lparr>stdin = [''1'', [CHR 0xA0, CHR ''Y''], ''1'', ''n''], rand = sconst 0,
      scg = SenseClueGenerator_new\<rparr>
   = Inr (Game_init (Some [\<lparr>room_id = 6, name = ''Treasure Room'', encounter = TreasureEncounter\<rparr>]),
          \<lparr>stdin = [], rand = sconst 0, scg = SenseClueGenerator_new\<rparr>)"
proof -
  have t: "encounter \<lparr>room_id = 6, name = ''Treasure Room'', encounter = TreasureEncounter\<rparr> = TreasureEncounter"
    by simp
  have a1: "str_startswith (str_lower (str_strip [CHR 0xA0, CHR ''Y''])) ''y''"
    by (simp add: str_startswith_def str_lower_def str_strip_def isspace_def lower_char_def
        upper_chars_def lower_chars_def)
  have a2: "\<not> str_startswith (str_lower (str_strip ''n'')) ''y''"
    by (simp add: str_startswith_def str_lower_def str_strip_def isspace_def lower_char_def
        upper_chars_def lower_chars_def)
  show ?thesis
    by (simp only: treasure_round [OF t] a1 a2 if_True if_False)
qed

text \<open>
  Claim C6, as stated, says that every answer without a case-insensitive prefix \<open>y\<close>
  ends the loop. The answer is stripped before the test: on the input lines
  \<open>1\<close>, \<open> y\<close> (a space, then \<open>y\<close>), \<open>1\<close>, \<open>n\<close> and a castle holding only the
  treasure room, the loop does not end at the second line, which has no prefix \<open>y\<close>;
  it plays a second round and consumes all four lines.
\<close>

theorem replay_answer_is_stripped:
  "\<not> str_startswith (str_lower '' y'') ''y''
   \<and> play_game digit_int (Game_init (Some [\<lparr>room_id = 6, name = ''Treasure Room'', encounter = TreasureEncounter\<rparr>]))
         
         \<lparr>stdin = [''1'', '' y'', ''1'', ''n''], rand = sconst 0, scg = SenseClueGenerator_new\<rparr>
       = Inr (Game_init (Some [\<lparr>room_id = 6, name = ''Treasure Room'', encounter = TreasureEncounter\<rparr>]), 
         \<lparr>stdin = [], rand = sconst 0, scg = SenseClueGenerator_new\<rparr>)"
proof -
  have t: "encounter \<lparr>room_id = 6, name = ''Treasure Room'', encounter = TreasureEncounter\<rparr> = TreasureEncounter"
    by simp
  have a1: "str_startswith (str_lower (str_strip '' y'')) ''y''"
    by (simp add: str_startswith_def str_lower_def str_strip_def isspace_def lower_char_def upper_chars_def lower_chars_def)
  have a2: "\<not> str_startswith (str_lower (str_strip ''n'')) ''y''"
    by (simp add: str_startswith_def str_lower_def str_strip_def isspace_def lower_char_def upper_chars_def lower_chars_def)
  have a3: "\<not> str_startswith (str_lower '' y'') ''y''"
    by (simp add: str_startswith_def str_lower_def lower_char_def upper_chars_def lower_chars_def)
  have "play_game digit_int (Game_init (Some [\<lparr>room_id = 6, name = ''Treasure Room'', encounter = TreasureEncounter\<rparr>]))
         
         \<lparr>stdin = [''1'', '' y'', ''1'', ''n''], rand = sconst 0, scg = SenseClueGenerator_new\<rparr>
       = Inr (Game_init (Some [\<lparr>room_id = 6, name = ''Treasure Room'', encounter = TreasureEncounter\<rparr>]), 
         \<lparr>stdin = [], rand = sconst 0, scg = SenseClueGenerator_new\<rparr>)"
    by (simp only: treasure_round [OF t] a1 a2 if_True if_False)
  with a3 show ?thesis by simp
qed

theorem play_game_on_end_witness:
  "next_room digit_int (castle (Game_init (Some [\<lparr>room_id = 6, name = ''Treasure Room'', encounter = TreasureEncounter\<rparr>]))) 
         \<lparr>stdin = [''1'', ''Yes''], rand = sconst 0, scg = SenseClueGenerator_new\<rparr>
     = Inr (END, \<lparr>room_selector = \<lparr>items = [\<lparr>room_id = 6, name = ''Treasure Room'', encounter = TreasureEncounter\<rparr>], used_items = [\<lparr>room_id = 6, name = ''Treasure Room'', encounter = TreasureEncounter\<rparr>]\<rparr>\<rparr>, 
         \<lparr>stdin = [''Yes''], rand = sconst 0, scg = SenseClueGenerator_new\<rparr>)
   \<and> stdin 
         \<lparr>stdin = [''Yes''], rand = sconst 0, scg = SenseClueGenerator_new\<rparr> = ''Yes'' # []
   \<and> play_game digit_int (Game_init (Some [\<lparr>room_id = 6, name = ''Treasure Room'', encounter = TreasureEncounter\<rparr>])) 
         \<lparr>stdin = [''1'', ''Yes''], rand = sconst 0, scg = SenseClueGenerator_new\<rparr>
       = play_game digit_int (Game_init (Some [\<lparr>room_id = 6, name = ''Treasure Room'', encounter = TreasureEncounter\<rparr>])) 
         \<lparr>stdin = [], rand = sconst 0, scg = SenseClueGenerator_new\<rparr>
   \<and> Castle_reset \<lparr>room_selector = \<lparr>items = [\<lparr>room_id = 6, name = ''Treasure Room'', encounter = TreasureEncounter\<rparr>], used_items = [\<lparr>room_id = 6, name = ''Treasure Room'', encounter = TreasureEncounter\<rparr>]\<rparr>\<rparr>
       = Castle_init (Some [\<lparr>room_id = 6, name = ''Treasure Room'', encounter = TreasureEncounter\<rparr>])"
proof -
  have t: "encounter \<lparr>room_id = 6, name = ''Treasure Room'', encounter = TreasureEncounter\<rparr> = TreasureEncounter"
    by simp
  have h1: "next_room digit_int (castle (Game_init (Some [\<lparr>room_id = 6, name = ''Treasure Room'', encounter = TreasureEncounter\<rparr>]))) 
         \<lparr>stdin = [''1'', ''Yes''], rand = sconst 0, scg = SenseClueGenerator_new\<rparr>
     = Inr (END, \<lparr>room_selector = \<lparr>items = [\<lparr>room_id = 6, name = ''Treasure Room'', encounter = TreasureEncounter\<rparr>], used_items = [\<lparr>room_id = 6, name = ''Treasure Room'', encounter = TreasureEncounter\<rparr>]\<rparr>\<rparr>, 
         \<lparr>stdin = [''Yes''], rand = sconst 0, scg = SenseClueGenerator_new\<rparr>)"
    unfolding treasure_game_init by (simp add: treasure_next_room [OF t])
  have h2: "stdin 
         \<lparr>stdin = [''Yes''], rand = sconst 0, scg = SenseClueGenerator_new\<rparr> = ''Yes'' # []" by simp
  have a: "str_startswith (str_lower (str_strip ''Yes'')) ''y''"
    by (simp add: str_startswith_def str_lower_def str_strip_def isspace_def lower_char_def upper_chars_def lower_chars_def)
  have g: "Game_init (Some [\<lparr>room_id = 6, name = ''Treasure Room'', encounter = TreasureEncounter\<rparr>])\<lparr>castle := Castle_reset \<lparr>room_selector = \<lparr>items = [\<lparr>room_id = 6, name = ''Treasure Room'', encounter = TreasureEncounter\<rparr>], used_items = [\<lparr>room_id = 6, name = ''Treasure Room'', encounter = TreasureEncounter\<rparr>]\<rparr>\<rparr>\<rparr>
      = Game_init (Some [\<lparr>room_id = 6, name = ''Treasure Room'', encounter = TreasureEncounter\<rparr>])"
    unfolding treasure_game_init by (simp add: Castle_reset_def reset_def)
  have i: "items (room_selector (castle (Game_init (Some [\<lparr>room_id = 6, name = ''Treasure Room'', encounter = TreasureEncounter\<rparr>])))) = [\<lparr>room_id = 6, name = ''Treasure Room'', encounter = TreasureEncounter\<rparr>]"
    unfolding treasure_game_init by simp
  note inst = play_game_on_end [OF h1 h2]
  have c1: "play_game digit_int (Game_init (Some [\<lparr>room_id = 6, name = ''Treasure Room'', encounter = TreasureEncounter\<rparr>])) 
         \<lparr>stdin = [''1'', ''Yes''], rand = sconst 0, scg = SenseClueGenerator_new\<rparr>
       = play_game digit_int (Game_init (Some [\<lparr>room_id = 6, name = ''Treasure Room'', encounter = TreasureEncounter\<rparr>])) 
         \<lparr>stdin = [], rand = sconst 0, scg = SenseClueGenerator_new\<rparr>"
    using inst [THEN conjunct1] unfolding g by (simp add: a)
  have c2: "Castle_reset \<lparr>room_selector = \<lparr>items = [\<lparr>room_id = 6, name = ''Treasure Room'', encounter = TreasureEncounter\<rparr>], used_items = [\<lparr>room_id = 6, name = ''Treasure Room'', encounter = TreasureEncounter\<rparr>]\<rparr>\<rparr>
       = Castle_init (Some [\<lparr>room_id = 6, name = ''Treasure Room'', encounter = TreasureEncounter\<rparr>])"
    using inst [THEN conjunct2, THEN conjunct2, THEN conjunct2] unfolding i .
  from h1 h2 c1 c2 show ?thesis by (intro conjI)
qed

end
